theory Spec2Isabelle
  imports Complex_Main "HOL-Library.Multiset"
begin

section \<open>The augmentation and batch-assembly pipeline of train.py\<close>

text \<open>
  The embedding follows \<^verbatim>\<open>src/train.py\<close>: the generator \<^verbatim>\<open>_generate\<close>, the index
  stream \<^verbatim>\<open>_generate_shuffled_indices\<close>, \<^verbatim>\<open>_generate_batch\<close>,
  \<^verbatim>\<open>_generate_instance\<close>, \<^verbatim>\<open>_load_image\<close>, \<^verbatim>\<open>_to_categorical\<close> and the
  \<^verbatim>\<open>apply\<close> methods of \<^verbatim>\<open>Affine\<close> and \<^verbatim>\<open>Solarize\<close>. Python names that start with an
  underscore lose it.

  Conventions.
  \<^item> Pixel and label values are exact rationals. The one place where the source asks for
    a float32 result (\<^verbatim>\<open>.astype(np.float32)\<close> after mixing) goes through the rounding
    function \<open>float32\<close> of the environment, about which nothing is fixed here.
  \<^item> A computation has three outcomes: it returns a value (\<open>Some (Inr v)\<close>), it raises
    (\<open>Some (Inl e)\<close>), or it never returns (\<open>None\<close>).
  \<^item> Every call of the random number generator is an explicit argument: the raw draws
    of one sample are a record \<open>job_draws\<close>, the result of the k-th call of
    \<^verbatim>\<open>np.random.shuffle\<close> is \<open>shuf k\<close> applied to the array.
  \<^item> What the libraries do (PIL, albumentations, numpy, joblib) is either a field of the
    environment \<open>world\<close> or a definition marked as a model of the library.
\<close>

subsection \<open>Data\<close>

datatype error = DecodeError | IndexError | ValueError

type_synonym image = "rat list list list"

type_synonym label = "rat list"

type_synonym 'a outcome = "(error + 'a) option"

text \<open>A decoded picture as PIL holds it: its colour mode and its pixels.\<close>

record pil_image =
  mode :: string
  pixels :: image

text \<open>
  The environment: \<open>PIL_open\<close> is the file system together with PIL's decoder (a
  file that PIL cannot read or decode, at whatever point of \<^verbatim>\<open>_load_image\<close>, is an
  error of \<open>PIL_open\<close>),
  \<open>PIL_convert\<close> is \<^verbatim>\<open>img.convert\<close>, \<open>aug1\<close> is the albumentations pipeline
  \<^verbatim>\<open>aug1\<close> built by \<^verbatim>\<open>_generate\<close> for the given value of \<^verbatim>\<open>data_augmentation\<close>
  (its second argument stands for the random draws it makes), \<open>float32\<close> rounds to
  single precision.
\<close>

record world =
  PIL_open :: "string \<Rightarrow> error + pil_image"
  PIL_convert :: "pil_image \<Rightarrow> string \<Rightarrow> pil_image"
  aug1 :: "bool \<Rightarrow> nat \<Rightarrow> image \<Rightarrow> image"
  float32 :: "rat \<Rightarrow> rat"

text \<open>The rectangle \<^verbatim>\<open>img[y1:y2, x1:x2]\<close> that Cutout sets to zero.\<close>

record hole =
  hole_y1 :: nat
  hole_y2 :: nat
  hole_x1 :: nat
  hole_x2 :: nat

text \<open>
  The raw random draws of one call of \<^verbatim>\<open>_generate_instance\<close>, in the order of the
  source: the draws of \<^verbatim>\<open>aug1\<close> on the primary image, the successive raw values behind
  \<^verbatim>\<open>np.random.choice(len(y))\<close>, the draws of \<^verbatim>\<open>aug1\<close> on the partner image, the raw
  sample in [0,1) behind \<^verbatim>\<open>np.random.uniform(0.5, 1.0)\<close>, the value of
  \<^verbatim>\<open>random.random()\<close> that Cutout compares with its probability, and the rectangle
  Cutout picks.
\<close>

record job_draws =
  aug1_draw_i :: nat
  choice_raw :: "nat \<Rightarrow> nat"
  aug1_draw_t :: nat
  uniform_raw :: rat
  cutout_u :: rat
  cutout_hole :: hole

subsection \<open>numpy's random calls\<close>

text \<open>
  \<^verbatim>\<open>np.random.choice(n)\<close> raises ValueError for \<open>n = 0\<close> and returns a value of
  \<open>[0, n)\<close> otherwise: the raw draw is reduced modulo \<open>n\<close>, so that every raw value gives
  a legal result and every legal result is given by some raw value.
\<close>

definition np_random_choice :: "nat \<Rightarrow> nat \<Rightarrow> error + nat" where
  "np_random_choice n raw = (if n = 0 then Inl ValueError else Inr (raw mod n))"

text \<open>\<^verbatim>\<open>np.random.uniform(low, high)\<close> is \<open>low + (high - low) * u\<close> for the raw sample \<open>u\<close>.\<close>

definition np_random_uniform :: "rat \<Rightarrow> rat \<Rightarrow> rat \<Rightarrow> rat" where
  "np_random_uniform low high u = low + (high - low) * u"

subsection \<open>\<^verbatim>\<open>_load_image\<close> and \<^verbatim>\<open>_to_categorical\<close>\<close>

definition load_image :: "world \<Rightarrow> string \<Rightarrow> error + image" where
  "load_image w path =
     (case PIL_open w path of
        Inl e \<Rightarrow> Inl e
      | Inr img \<Rightarrow>
          Inr (pixels (if mode img \<noteq> ''RGB'' then PIL_convert w img ''RGB'' else img)))"

text \<open>
  \<^verbatim>\<open>onehot[index] = 1\<close> on an array of \<open>num_classes\<close> zeros: numpy counts a negative
  index from the end and raises IndexError outside \<open>[-num_classes, num_classes)\<close>.
\<close>

definition to_categorical :: "int \<Rightarrow> nat \<Rightarrow> error + label" where
  "to_categorical index num_classes =
     (let n = int num_classes in
      if index < - n \<or> n \<le> index then Inl IndexError
      else Inr ((replicate num_classes 0)
                  [nat (if index < 0 then index + n else index) := 1]))"

subsection \<open>The normalisation stage \<^verbatim>\<open>aug2\<close>\<close>

text \<open>
  \<^verbatim>\<open>A.Normalize(mean=0.5, std=0.5)\<close> with the library's \<^verbatim>\<open>max_pixel_value=255\<close>:
  \<open>(v - 0.5 * 255) / (0.5 * 255)\<close> on every channel value.
\<close>

definition Normalize :: "image \<Rightarrow> image" where
  "Normalize img = map (map (map (\<lambda>v. (v - (1 / 2) * 255) / ((1 / 2) * 255)))) img"

text \<open>\<^verbatim>\<open>img[y1:y2, x1:x2] = 0\<close>: every channel of every pixel of the rectangle.\<close>

definition in_hole :: "hole \<Rightarrow> nat \<Rightarrow> nat \<Rightarrow> bool" where
  "in_hole h y x \<longleftrightarrow> hole_y1 h \<le> y \<and> y < hole_y2 h \<and> hole_x1 h \<le> x \<and> x < hole_x2 h"

definition cutout :: "hole \<Rightarrow> image \<Rightarrow> image" where
  "cutout h img =
     map (\<lambda>(y, row).
            map (\<lambda>(x, px). if in_hole h y x then map (\<lambda>_. 0) px else px) (enumerate 0 row))
         (enumerate 0 img)"

text \<open>
  An albumentations transform with probability \<open>p\<close> runs when \<^verbatim>\<open>random.random() < p\<close>.
  \<^verbatim>\<open>A.Cutout(num_holes=1, max_h_size=16, max_w_size=16)\<close> passes no \<open>p\<close>, so the
  library's default applies, the \<open>p=.5\<close> that the transforms of the source repeat in
  their own constructors. \<^verbatim>\<open>A.Normalize\<close> and \<^verbatim>\<open>A.Compose\<close> have \<open>p = 1\<close>.
\<close>

definition Cutout_p :: rat where
  "Cutout_p = 1 / 2"

definition apply_with_p :: "rat \<Rightarrow> rat \<Rightarrow> (image \<Rightarrow> image) \<Rightarrow> image \<Rightarrow> image" where
  "apply_with_p p u f img = (if u < p then f img else img)"

definition aug2 :: "bool \<Rightarrow> job_draws \<Rightarrow> image \<Rightarrow> image" where
  "aug2 data_augmentation d img =
     (if data_augmentation
      then apply_with_p Cutout_p (cutout_u d) (cutout (cutout_hole d)) (Normalize img)
      else Normalize img)"

subsection \<open>\<^verbatim>\<open>_generate_instance\<close>\<close>

definition list_get :: "'a list \<Rightarrow> nat \<Rightarrow> error + 'a" where
  "list_get xs i = (if i < length xs then Inr (xs ! i) else Inl IndexError)"

text \<open>
  The partner loop \<^verbatim>\<open>while True: t = np.random.choice(len(y)); if y[t] != y_i: break\<close>;
  \<open>k\<close> counts the draws made so far.
\<close>

partial_function (option) partner_loop ::
  "int list \<Rightarrow> int \<Rightarrow> (nat \<Rightarrow> nat) \<Rightarrow> nat \<Rightarrow> (error + nat) option" where
  "partner_loop y y_i raw k =
     (case np_random_choice (length y) (raw k) of
        Inl e \<Rightarrow> Some (Inl e)
      | Inr t \<Rightarrow> if y ! t \<noteq> y_i then Some (Inr t) else partner_loop y y_i raw (Suc k))"

text \<open>
  \<^verbatim>\<open>(a * r + b * (1 - r)).astype(np.float32)\<close>, elementwise. Each operation is rounded.
  Arrays of different shapes make numpy raise (broadcasting of axes of length 1 aside,
  which two outputs of \<^verbatim>\<open>aug1\<close> never need).
\<close>

definition mix_value :: "world \<Rightarrow> rat \<Rightarrow> rat \<Rightarrow> rat \<Rightarrow> rat" where
  "mix_value w r a b = float32 w (float32 w (a * r) + float32 w (b * (1 - r)))"

definition mix_labels :: "world \<Rightarrow> rat \<Rightarrow> label \<Rightarrow> label \<Rightarrow> label" where
  "mix_labels w r c_i c_t = map2 (mix_value w r) c_i c_t"

definition mix_images :: "world \<Rightarrow> rat \<Rightarrow> image \<Rightarrow> image \<Rightarrow> error + image" where
  "mix_images w r X_i X_t =
     (if map (map length) X_i = map (map length) X_t
      then Inr (map2 (map2 (map2 (mix_value w r))) X_i X_t)
      else Inl ValueError)"

definition generate_instance ::
  "world \<Rightarrow> string list \<Rightarrow> int list \<Rightarrow> nat \<Rightarrow> bool \<Rightarrow> job_draws \<Rightarrow> nat
     \<Rightarrow> (image \<times> label) outcome" where
  "generate_instance w X y num_classes data_augmentation d index =
     (case list_get X index of Inl e \<Rightarrow> Some (Inl e) | Inr path_i \<Rightarrow>
     (case list_get y index of Inl e \<Rightarrow> Some (Inl e) | Inr y_i \<Rightarrow>
     (case load_image w path_i of Inl e \<Rightarrow> Some (Inl e) | Inr raw_i \<Rightarrow>
     (let X_i = aug1 w data_augmentation (aug1_draw_i d) raw_i in
     (case to_categorical y_i num_classes of Inl e \<Rightarrow> Some (Inl e) | Inr c_i \<Rightarrow>
       if data_augmentation then
         (case partner_loop y y_i (choice_raw d) 0 of
            None \<Rightarrow> None
          | Some (Inl e) \<Rightarrow> Some (Inl e)
          | Some (Inr t) \<Rightarrow>
         (case list_get X t of Inl e \<Rightarrow> Some (Inl e) | Inr path_t \<Rightarrow>
         (case list_get y t of Inl e \<Rightarrow> Some (Inl e) | Inr y_t \<Rightarrow>
         (case load_image w path_t of Inl e \<Rightarrow> Some (Inl e) | Inr raw_t \<Rightarrow>
         (let X_t = aug1 w data_augmentation (aug1_draw_t d) raw_t in
         (case to_categorical y_t num_classes of Inl e \<Rightarrow> Some (Inl e) | Inr c_t \<Rightarrow>
         (let r = np_random_uniform (1 / 2) 1 (uniform_raw d) in
         (case mix_images w r X_i X_t of Inl e \<Rightarrow> Some (Inl e) | Inr X_m \<Rightarrow>
            Some (Inr (aug2 data_augmentation d X_m, mix_labels w r c_i c_t))))))))))
       else Some (Inr (aug2 data_augmentation d X_i, c_i)))))))"

subsection \<open>\<^verbatim>\<open>_generate_batch\<close> and the worker pool\<close>

text \<open>
  Modelled from the spec: the worker pool \<^verbatim>\<open>joblib.Parallel(backend='threading')\<close>, a
  library outside the repository. Section 5 of the spec: a call dispatches the jobs,
  blocks until all of them are complete, and stacks the results in request order.
  Here \<open>order\<close> is the order in which the workers complete; the worker of job \<open>j\<close>
  stores its outcome in slot \<open>j\<close>; a job that never returns leaves its slot empty.
  The caller then takes the slots in request order (\<open>collect\<close>): it waits at an empty
  slot for ever and re-raises the first error it meets. A position of \<open>order\<close> beyond
  the jobs changes no slot.
\<close>

fun collect :: "'a outcome list \<Rightarrow> 'a list outcome" where
  "collect [] = Some (Inr [])"
| "collect (None # slots) = None"
| "collect (Some (Inl e) # slots) = Some (Inl e)"
| "collect (Some (Inr v) # slots) =
     (case collect slots of
        None \<Rightarrow> None
      | Some (Inl e) \<Rightarrow> Some (Inl e)
      | Some (Inr vs) \<Rightarrow> Some (Inr (v # vs)))"

definition parallel :: "nat list \<Rightarrow> 'a outcome list \<Rightarrow> 'a list outcome" where
  "parallel order jobs =
     collect (fold (\<lambda>j slots. slots[j := jobs ! j]) order (replicate (length jobs) None))"

text \<open>
  \<^verbatim>\<open>X_batch, y_batch = zip(*results)\<close> raises ValueError when there is no result to
  unpack. The job at position \<open>k\<close> of the batch makes the draws \<open>draws k\<close>.
\<close>

definition generate_batch ::
  "world \<Rightarrow> string list \<Rightarrow> int list \<Rightarrow> nat \<Rightarrow> bool \<Rightarrow> nat list \<Rightarrow> (nat \<Rightarrow> job_draws)
     \<Rightarrow> nat list \<Rightarrow> (image list \<times> label list) outcome" where
  "generate_batch w X y num_classes data_augmentation order draws batch_indices =
     (let jobs = map (\<lambda>(k, i). generate_instance w X y num_classes data_augmentation (draws k) i)
                     (enumerate 0 batch_indices)
      in case parallel order jobs of
           None \<Rightarrow> None
         | Some (Inl e) \<Rightarrow> Some (Inl e)
         | Some (Inr results) \<Rightarrow>
             if results = [] then Some (Inl ValueError)
             else Some (Inr (map fst results, map snd results)))"

subsection \<open>\<^verbatim>\<open>_generate_shuffled_indices\<close>\<close>

text \<open>
  The state of the generator: the array, the position of the \<^verbatim>\<open>yield from\<close> in it, and
  the number of calls of \<^verbatim>\<open>np.random.shuffle\<close> made so far. A fresh generator has not
  shuffled yet: its position is at the end of \<open>arange(data_count)\<close>.
\<close>

record idx_state =
  all_indices :: "nat list"
  cursor :: nat
  shuffles :: nat

definition generate_shuffled_indices :: "nat \<Rightarrow> idx_state" where
  "generate_shuffled_indices data_count =
     \<lparr>all_indices = [0..<data_count], cursor = data_count, shuffles = 0\<rparr>"

partial_function (option) shuffled_next ::
  "(nat \<Rightarrow> nat list \<Rightarrow> nat list) \<Rightarrow> idx_state \<Rightarrow> (nat \<times> idx_state) option" where
  "shuffled_next shuf s =
     (if cursor s < length (all_indices s)
      then Some (all_indices s ! cursor s, s\<lparr>cursor := Suc (cursor s)\<rparr>)
      else shuffled_next shuf
             \<lparr>all_indices = shuf (shuffles s) (all_indices s), cursor = 0,
              shuffles = Suc (shuffles s)\<rparr>)"

text \<open>A consumer that asks the stream for \<open>n\<close> indices, one after the other.\<close>

fun draw_indices ::
  "(nat \<Rightarrow> nat list \<Rightarrow> nat list) \<Rightarrow> nat \<Rightarrow> idx_state \<Rightarrow> (nat list \<times> idx_state) option" where
  "draw_indices shuf 0 s = Some ([], s)"
| "draw_indices shuf (Suc n) s =
     (case draw_indices shuf n s of
        None \<Rightarrow> None
      | Some (xs, s') \<Rightarrow>
          (case shuffled_next shuf s' of
             None \<Rightarrow> None
           | Some (i, s'') \<Rightarrow> Some (xs @ [i], s'')))"

subsection \<open>\<^verbatim>\<open>_generate\<close>\<close>

text \<open>
  Shuffled mode: indices are appended to \<^verbatim>\<open>batch_indices\<close> until its length equals
  \<^verbatim>\<open>batch_size\<close>.
\<close>

partial_function (option) fill_batch ::
  "(nat \<Rightarrow> nat list \<Rightarrow> nat list) \<Rightarrow> nat \<Rightarrow> nat list \<Rightarrow> idx_state
     \<Rightarrow> (nat list \<times> idx_state) option" where
  "fill_batch shuf batch_size batch_indices s =
     (case shuffled_next shuf s of
        None \<Rightarrow> None
      | Some (index, s') \<Rightarrow>
          (let batch_indices' = batch_indices @ [index] in
           if length batch_indices' = batch_size then Some (batch_indices', s')
           else fill_batch shuf batch_size batch_indices' s'))"

text \<open>
  Sequential mode: \<^verbatim>\<open>while True: for i in range(0, len(X), batch_size)\<close>. The state is the
  next value of \<open>i\<close>; \<^verbatim>\<open>range\<close> raises ValueError for a step of 0.
\<close>

partial_function (option) sequential_next ::
  "nat \<Rightarrow> nat \<Rightarrow> nat \<Rightarrow> (nat list \<times> nat) outcome" where
  "sequential_next data_count batch_size i =
     (if batch_size = 0 then Some (Inl ValueError)
      else if i < data_count
      then Some (Inr ([i..<min (i + batch_size) data_count], i + batch_size))
      else sequential_next data_count batch_size 0)"

datatype gen_state = Shuffled idx_state | Sequential nat

definition generate :: "nat \<Rightarrow> bool \<Rightarrow> gen_state" where
  "generate data_count shuffle =
     (if shuffle then Shuffled (generate_shuffled_indices data_count) else Sequential 0)"

text \<open>The index list that the next call of the generator hands to \<^verbatim>\<open>_generate_batch\<close>.\<close>

fun next_indices ::
  "(nat \<Rightarrow> nat list \<Rightarrow> nat list) \<Rightarrow> nat \<Rightarrow> nat \<Rightarrow> gen_state \<Rightarrow> (nat list \<times> gen_state) outcome" where
  "next_indices shuf data_count batch_size (Shuffled s) =
     (case fill_batch shuf batch_size [] s of
        None \<Rightarrow> None
      | Some (batch_indices, s') \<Rightarrow> Some (Inr (batch_indices, Shuffled s')))"
| "next_indices shuf data_count batch_size (Sequential i) =
     (case sequential_next data_count batch_size i of
        None \<Rightarrow> None
      | Some (Inl e) \<Rightarrow> Some (Inl e)
      | Some (Inr (batch_indices, i')) \<Rightarrow> Some (Inr (batch_indices, Sequential i')))"

text \<open>
  One call of \<^verbatim>\<open>next\<close> on the generator: the batch and the generator's new state. An
  exception ends the generator.
\<close>

definition generate_next ::
  "world \<Rightarrow> (nat \<Rightarrow> nat list \<Rightarrow> nat list) \<Rightarrow> string list \<Rightarrow> int list \<Rightarrow> nat \<Rightarrow> nat \<Rightarrow> bool
     \<Rightarrow> nat list \<Rightarrow> (nat \<Rightarrow> job_draws) \<Rightarrow> gen_state
     \<Rightarrow> ((image list \<times> label list) \<times> gen_state) outcome" where
  "generate_next w shuf X y batch_size num_classes data_augmentation order draws st =
     (case next_indices shuf (length X) batch_size st of
        None \<Rightarrow> None
      | Some (Inl e) \<Rightarrow> Some (Inl e)
      | Some (Inr (batch_indices, st')) \<Rightarrow>
          (case generate_batch w X y num_classes data_augmentation order draws batch_indices of
             None \<Rightarrow> None
           | Some (Inl e) \<Rightarrow> Some (Inl e)
           | Some (Inr batch) \<Rightarrow> Some (Inr (batch, st'))))"

text \<open>
  The successive index lists of the first \<open>k\<close> calls of \<^verbatim>\<open>next\<close>, each call made after
  the one before has returned.
\<close>

fun index_batches ::
  "(nat \<Rightarrow> nat list \<Rightarrow> nat list) \<Rightarrow> nat \<Rightarrow> nat \<Rightarrow> nat \<Rightarrow> gen_state
     \<Rightarrow> (nat list list \<times> gen_state) outcome" where
  "index_batches shuf data_count batch_size 0 st = Some (Inr ([], st))"
| "index_batches shuf data_count batch_size (Suc k) st =
     (case index_batches shuf data_count batch_size k st of
        None \<Rightarrow> None
      | Some (Inl e) \<Rightarrow> Some (Inl e)
      | Some (Inr (bs, st')) \<Rightarrow>
          (case next_indices shuf data_count batch_size st' of
             None \<Rightarrow> None
           | Some (Inl e) \<Rightarrow> Some (Inl e)
           | Some (Inr (b, st'')) \<Rightarrow> Some (Inr (bs @ [b], st''))))"

subsection \<open>\<^verbatim>\<open>Affine.apply\<close>\<close>

text \<open>\<^verbatim>\<open>np.random.choice([-1, 1])\<close>: the raw draw picks one of the two entries.\<close>

definition choice_sign :: "nat \<Rightarrow> rat" where
  "choice_sign raw = [- 1, 1] ! (raw mod 2)"

record Affine =
  shear_x_mag :: nat
  shear_y_mag :: nat
  translate_x_mag :: nat
  translate_y_mag :: nat

text \<open>The four sign draws of one call of \<^verbatim>\<open>Affine.apply\<close>, in the order of the source.\<close>

record affine_draws =
  shear_x_raw :: nat
  shear_y_raw :: nat
  translate_x_raw :: nat
  translate_y_raw :: nat

text \<open>
  The arguments that \<^verbatim>\<open>Affine.apply\<close> hands to
  \<^verbatim>\<open>img.transform(img.size, PIL.Image.AFFINE, data, PIL.Image.BICUBIC, fillcolor)\<close>.
\<close>

record pil_transform =
  data :: "rat \<times> rat \<times> rat \<times> rat \<times> rat \<times> rat"
  fillcolor :: "nat \<times> nat \<times> nat"

definition Affine_apply :: "Affine \<Rightarrow> affine_draws \<Rightarrow> pil_transform" where
  "Affine_apply t d =
     (let shear_x = of_nat (shear_x_mag t) / 9 * (3 / 10) * choice_sign (shear_x_raw d);
          shear_y = of_nat (shear_y_mag t) / 9 * (3 / 10) * choice_sign (shear_y_raw d);
          translate_x =
            of_nat (translate_x_mag t) / 9 * (150 / 331) * choice_sign (translate_x_raw d);
          translate_y =
            of_nat (translate_y_mag t) / 9 * (150 / 331) * choice_sign (translate_y_raw d)
      in \<lparr>data = (1, shear_x, translate_x, shear_y, 1, translate_y),
          fillcolor = (128, 128, 128)\<rparr>)"

text \<open>The entries \<^verbatim>\<open>'TranslateX'\<close> and \<^verbatim>\<open>'TranslateY'\<close> of the table \<^verbatim>\<open>sp\<close>.\<close>

definition TranslateX :: "nat \<Rightarrow> Affine" where
  "TranslateX mag =
     \<lparr>shear_x_mag = 0, shear_y_mag = 0, translate_x_mag = mag, translate_y_mag = 0\<rparr>"

definition TranslateY :: "nat \<Rightarrow> Affine" where
  "TranslateY mag =
     \<lparr>shear_x_mag = 0, shear_y_mag = 0, translate_x_mag = 0, translate_y_mag = mag\<rparr>"

text \<open>
  PIL's affine transform (a model of the library, from its documentation): with
  \<open>data = (a, b, c, d, e, f)\<close>, the output pixel \<open>(x, y)\<close> takes its value from the
  position \<open>(a x + b y + c, d x + e y + f)\<close> of the input image, both in pixels.
\<close>

definition affine_source :: "pil_transform \<Rightarrow> rat \<times> rat \<Rightarrow> rat \<times> rat" where
  "affine_source t p =
     (case (data t, p) of
        ((a, b, c, d, e, f), (x, y)) \<Rightarrow> (a * x + b * y + c, d * x + e * y + f))"

subsection \<open>\<^verbatim>\<open>Solarize.apply\<close>\<close>

definition Solarize_threshold :: "nat \<Rightarrow> rat" where
  "Solarize_threshold mag = 256 - of_nat mag * 256 / 9"

text \<open>
  \<^verbatim>\<open>PIL.ImageOps.solarize(img, threshold)\<close> (a model of the library): a table with the
  entry \<open>i\<close> for \<open>i < threshold\<close> and \<open>255 - i\<close> otherwise, for \<open>i\<close> in \<open>range(256)\<close>,
  looked up at every 8-bit channel value.
\<close>

definition solarize_lut :: "rat \<Rightarrow> nat list" where
  "solarize_lut threshold = map (\<lambda>i. if of_nat i < threshold then i else 255 - i) [0..<256]"

definition Solarize_apply :: "nat \<Rightarrow> nat list list list \<Rightarrow> nat list list list" where
  "Solarize_apply mag img =
     map (map (map (\<lambda>v. solarize_lut (Solarize_threshold mag) ! v))) img"

subsection \<open>Notions used to state the properties\<close>

text \<open>The array \<^verbatim>\<open>all_indices\<close> after \<open>k\<close> calls of \<^verbatim>\<open>np.random.shuffle\<close>.\<close>

fun perm_after :: "(nat \<Rightarrow> nat list \<Rightarrow> nat list) \<Rightarrow> nat \<Rightarrow> nat \<Rightarrow> nat list" where
  "perm_after shuf N 0 = [0..<N]"
| "perm_after shuf N (Suc k) = shuf k (perm_after shuf N k)"

text \<open>The index at position \<open>j\<close> of the stream: entry \<open>j mod N\<close> of the array of pass \<open>j div N\<close>.\<close>

definition stream_index :: "(nat \<Rightarrow> nat list \<Rightarrow> nat list) \<Rightarrow> nat \<Rightarrow> nat \<Rightarrow> nat" where
  "stream_index shuf N j = perm_after shuf N (Suc (j div N)) ! (j mod N)"

text \<open>The state of the index stream after \<open>n\<close> draws.\<close>

definition stream_inv ::
  "(nat \<Rightarrow> nat list \<Rightarrow> nat list) \<Rightarrow> nat \<Rightarrow> nat \<Rightarrow> idx_state \<Rightarrow> bool" where
  "stream_inv shuf N n s \<longleftrightarrow>
     all_indices s = perm_after shuf N (shuffles s) \<and> cursor s \<le> N \<and>
     n + N = shuffles s * N + cursor s \<and> (0 < shuffles s \<longrightarrow> 0 < cursor s)"

text \<open>
  The number of ranges of one pass of the sequential scan, \<open>ceil(N / B)\<close>, and the start
  of the range of call \<open>k\<close> (counted from 0).
\<close>

definition batches_per_pass :: "nat \<Rightarrow> nat \<Rightarrow> nat" where
  "batches_per_pass N B = (N + B - 1) div B"





subsection \<open>A concrete environment\<close>

text \<open>
  A file system where every path holds a decodable picture of one pixel, whose red
  channel is the length of the path; pictures at paths that start with \<open>g\<close> are
  grayscale (mode L). The geometric stage resizes its input to 331 by 331 by repeating
  the first pixel. Rounding is exact.
\<close>

definition resize331 :: "image \<Rightarrow> image" where
  "resize331 img =
     replicate 331 (replicate 331
       (case img of (px # _) # _ \<Rightarrow> take 3 (px @ [0, 0, 0]) | _ \<Rightarrow> [0, 0, 0]))"

definition world0 :: world where
  "world0 =
     \<lparr>PIL_open = (\<lambda>path.
         if path = ''corrupt'' then Inl DecodeError
         else Inr \<lparr>mode = (if take 1 path = ''g'' then ''L'' else ''RGB''),
                   pixels = [[[of_nat (length path), 0, 0]]]\<rparr>),
      PIL_convert = (\<lambda>img m. img\<lparr>mode := m\<rparr>),
      aug1 = (\<lambda>data_augmentation d img. resize331 img),
      float32 = (\<lambda>x. x)\<rparr>"

definition draws0 :: job_draws where
  "draws0 =
     \<lparr>aug1_draw_i = 0, choice_raw = (\<lambda>k. k), aug1_draw_t = 0, uniform_raw = 2 / 5,
      cutout_u = 7 / 10,
      cutout_hole = \<lparr>hole_y1 = 10, hole_y2 = 26, hole_x1 = 20, hole_x2 = 36\<rparr>\<rparr>"

text \<open>
  The batch row of the file whose path has length \<open>i\<close>, in evaluation mode: the
  one-pixel picture, resized and normalised.
\<close>

definition picture :: "nat \<Rightarrow> image" where
  "picture i = Normalize (resize331 [[[of_nat i, 0, 0]]])"

text \<open>Two datasets: the path of sample \<open>i\<close> has length \<open>i\<close>, the classes alternate.\<close>

definition paths9 :: "string list" where
  "paths9 = ['''', ''x'', ''xx'', ''xxx'', ''xxxx'', ''xxxxx'', ''xxxxxx'', ''xxxxxxx'',
     ''xxxxxxxx'']"

definition labels9 :: "int list" where
  "labels9 = [0, 1, 0, 1, 0, 1, 0, 1, 0]"

definition paths5 :: "string list" where
  "paths5 = ['''', ''x'', ''xx'', ''xxx'', ''xxxx'']"

definition labels5 :: "int list" where
  "labels5 = [0, 1, 0, 1, 0]"

section \<open>Properties\<close>

subsection \<open>TranslateX and TranslateY\<close>

text \<open>
  C3. The claim: TranslateX with magnitude \<open>m\<close> shifts the image by the fraction
  \<open>f = m/9 * (150/331)\<close> of the image size, that is by \<open>f\<close> times the width in pixels.
  The code hands \<open>f\<close> itself, with its sign, to PIL as the coefficient \<open>c\<close> of the affine
  map, and \<open>c\<close> is a number of pixels: the source position of the output pixel \<open>(x, y)\<close>
  is \<open>(x + f * sign, y)\<close>, whatever the width. At magnitude 9 the shift is 150/331 of
  one pixel, where the claim has 150 pixels on an image 331 wide. The same holds for
  TranslateY. The fill colour is gray (128, 128, 128).
\<close>

theorem Translate_offset_is_fraction_of_a_pixel:
  "affine_source (Affine_apply (TranslateX m) d) (x, y)
     = (x + of_nat m / 9 * (150 / 331) * choice_sign (translate_x_raw d), y)
   \<and> affine_source (Affine_apply (TranslateY m) d) (x, y)
     = (x, y + of_nat m / 9 * (150 / 331) * choice_sign (translate_y_raw d))
   \<and> fillcolor (Affine_apply (TranslateX m) d) = (128, 128, 128)
   \<and> affine_source (Affine_apply (TranslateX 9)
        \<lparr>shear_x_raw = 0, shear_y_raw = 0, translate_x_raw = 1, translate_y_raw = 0\<rparr>) (x, y)
     = (x + 150 / 331, y)
   \<and> (150 / 331 :: rat) < 1
   \<and> of_nat 9 / 9 * (150 / 331) * (331 :: rat) = 150"
  by (simp add: affine_source_def Affine_apply_def TranslateX_def TranslateY_def
      choice_sign_def)

subsection \<open>Solarize\<close>

lemma solarize_lut_nth:
  "v < 256 \<Longrightarrow> solarize_lut t ! v = (if of_nat v < t then v else 255 - v)"
  unfolding solarize_lut_def by (simp del: upt.simps)

text \<open>
  C4, as stated, fails: the threshold at magnitude 9 is \<open>256 - 9 * 256 / 9 = 0\<close>, not
  \<open>256 / 9\<close>.
\<close>

theorem Solarize_threshold_9_counterexample:
  "Solarize_threshold 9 = 0 \<and> Solarize_threshold 9 \<noteq> 256 / 9"
  by (simp add: Solarize_threshold_def)

text \<open>
  C4, amended. The threshold \<open>t(m) = 256 - m * 256 / 9\<close> is non-increasing in \<open>m\<close>, with
  \<open>t(0) = 256\<close>, \<open>t(8) = 256 / 9\<close> and \<open>t(9) = 0\<close>. A channel value \<open>v\<close> of 8 bits
  becomes \<open>255 - v\<close> when \<open>v \<ge> t(m)\<close> and is kept otherwise; at magnitude 0 every value
  is kept, at magnitude 9 every value is inverted.
\<close>

theorem Solarize_threshold_amended:
  assumes "m \<le> m'" and "v < 256"
  shows "Solarize_threshold m' \<le> Solarize_threshold m
   \<and> Solarize_threshold 0 = 256
   \<and> Solarize_threshold 8 = 256 / 9
   \<and> Solarize_threshold 9 = 0
   \<and> solarize_lut (Solarize_threshold m) ! v
       = (if of_nat v < Solarize_threshold m then v else 255 - v)
   \<and> Solarize_apply 0 [[[v]]] = [[[v]]]
   \<and> Solarize_apply 9 [[[v]]] = [[[255 - v]]]"
proof -
  have mono: "Solarize_threshold m' \<le> Solarize_threshold m"
    using assms(1) by (simp add: Solarize_threshold_def)
  have vals: "Solarize_threshold 0 = 256" "Solarize_threshold 8 = 256 / 9"
    "Solarize_threshold 9 = 0"
    by (simp_all add: Solarize_threshold_def)
  have lut: "solarize_lut (Solarize_threshold m) ! v
       = (if of_nat v < Solarize_threshold m then v else 255 - v)"
    using assms(2) by (rule solarize_lut_nth)
  have "(of_nat v :: rat) < 256"
    using assms(2) by (metis of_nat_less_iff of_nat_numeral)
  then have noop: "Solarize_apply 0 [[[v]]] = [[[v]]]"
    using assms(2) by (simp add: Solarize_apply_def solarize_lut_nth vals)
  have inv: "Solarize_apply 9 [[[v]]] = [[[255 - v]]]"
    using assms(2) by (simp add: Solarize_apply_def solarize_lut_nth vals)
  from mono vals lut noop inv show ?thesis by simp
qed

theorem Solarize_threshold_amended_witness:
  "(2::nat) \<le> 5 \<and> (200::nat) < 256
   \<and> Solarize_threshold 5 \<le> Solarize_threshold 2
   \<and> solarize_lut (Solarize_threshold 5) ! 200 = 55
   \<and> Solarize_apply 9 [[[200]]] = [[[55]]]"
  using Solarize_threshold_amended [of 2 5 200]
  by (simp add: Solarize_threshold_def solarize_lut_nth)

subsection \<open>The shuffled index stream\<close>

lemma shuffled_next_inside:
  "cursor s < length (all_indices s) \<Longrightarrow>
   shuffled_next shuf s = Some (all_indices s ! cursor s, s\<lparr>cursor := Suc (cursor s)\<rparr>)"
  by (subst shuffled_next.simps) simp

lemma shuffled_next_reshuffle:
  assumes "\<not> cursor s < length (all_indices s)" and "shuf (shuffles s) (all_indices s) \<noteq> []"
  shows "shuffled_next shuf s =
     Some (shuf (shuffles s) (all_indices s) ! 0,
           \<lparr>all_indices = shuf (shuffles s) (all_indices s), cursor = Suc 0,
            shuffles = Suc (shuffles s)\<rparr>)"
  using assms
  by (subst shuffled_next.simps) (simp add: shuffled_next_inside)

lemma mset_perm_after:
  assumes "\<forall>k xs. mset (shuf k xs) = mset xs"
  shows "mset (perm_after shuf N k) = mset [0..<N]"
  by (induction k) (simp_all add: assms)

lemma length_perm_after:
  assumes "\<forall>k xs. mset (shuf k xs) = mset xs"
  shows "length (perm_after shuf N k) = N"
  using mset_perm_after [OF assms, of N k] by (metis length_upt mset_eq_length minus_nat.diff_0)

lemma stream_inv_init: "stream_inv shuf N 0 (generate_shuffled_indices N)"
  by (simp add: stream_inv_def generate_shuffled_indices_def)

lemma shuffled_next_inv:
  assumes N: "1 \<le> N" and sh: "\<forall>k xs. mset (shuf k xs) = mset xs"
    and inv: "stream_inv shuf N n s"
  shows "\<exists>s'. shuffled_next shuf s = Some (stream_index shuf N n, s')
     \<and> stream_inv shuf N (Suc n) s'"
proof (cases "cursor s < N")
  case True
  have len: "length (all_indices s) = N"
    using inv length_perm_after [OF sh] by (simp add: stream_inv_def)
  have pos: "0 < shuffles s"
    using inv True by (cases "shuffles s") (simp_all add: stream_inv_def)
  then obtain e where e: "shuffles s = Suc e" by (cases "shuffles s") simp_all
  have n: "n = e * N + cursor s"
    using inv e by (simp add: stream_inv_def)
  have "n div N = e" "n mod N = cursor s"
    using n True by simp_all
  then show ?thesis
    using True len inv e
    by (simp add: shuffled_next_inside stream_inv_def stream_index_def)
next
  case False
  have len: "length (all_indices s) = N"
    using inv length_perm_after [OF sh] by (simp add: stream_inv_def)
  have c: "cursor s = N" using False inv by (simp add: stream_inv_def)
  have n: "n = shuffles s * N" using inv c by (simp add: stream_inv_def)
  have ne: "shuf (shuffles s) (all_indices s) \<noteq> []"
  proof -
    have "length (shuf (shuffles s) (all_indices s)) = N"
      using sh len by (metis mset_eq_length)
    with N show ?thesis by auto
  qed
  have "n div N = shuffles s" "n mod N = 0" using n N by simp_all
  then show ?thesis
    using N c len ne inv n
    by (simp add: shuffled_next_reshuffle stream_inv_def stream_index_def)
qed

lemma stream_index_less:
  assumes N: "1 \<le> N" and sh: "\<forall>k xs. mset (shuf k xs) = mset xs"
  shows "stream_index shuf N j < N"
proof -
  have "j mod N < length (perm_after shuf N (Suc (j div N)))"
    using N length_perm_after [OF sh, of N "Suc (j div N)"] by simp
  then have "stream_index shuf N j \<in> set (perm_after shuf N (Suc (j div N)))"
    unfolding stream_index_def by (rule nth_mem)
  also have "\<dots> = set [0..<N]"
    using mset_perm_after [OF sh, of N "Suc (j div N)"] by (rule mset_eq_setD)
  finally show ?thesis by simp
qed

lemma draw_indices_inv:
  assumes N: "1 \<le> N" and sh: "\<forall>k xs. mset (shuf k xs) = mset xs"
  shows "\<exists>s. draw_indices shuf n (generate_shuffled_indices N)
       = Some (map (stream_index shuf N) [0..<n], s)
     \<and> stream_inv shuf N n s"
proof (induction n)
  case 0
  show ?case by (simp add: stream_inv_init)
next
  case (Suc n)
  then obtain s where
    d: "draw_indices shuf n (generate_shuffled_indices N)
          = Some (map (stream_index shuf N) [0..<n], s)"
    and inv: "stream_inv shuf N n s"
    by blast
  from shuffled_next_inv [OF N sh inv] obtain s' where
    nx: "shuffled_next shuf s = Some (stream_index shuf N n, s')"
    and inv': "stream_inv shuf N (Suc n) s'"
    by blast
  show ?case using d nx inv' by simp
qed

lemma block_of_stream:
  assumes len: "length (perm_after shuf N (Suc b)) = N" and b: "(b + 1) * N \<le> n"
  shows "take N (drop (b * N) (map (stream_index shuf N) [0..<n])) = perm_after shuf N (Suc b)"
proof (rule nth_equalityI)
  show "length (take N (drop (b * N) (map (stream_index shuf N) [0..<n])))
      = length (perm_after shuf N (Suc b))"
    using b len by simp
next
  fix i
  assume "i < length (take N (drop (b * N) (map (stream_index shuf N) [0..<n])))"
  then have i: "i < N" by simp
  then have "b * N + i < n" using b by simp
  moreover have "(b * N + i) div N = b" "(b * N + i) mod N = i" using i by simp_all
  ultimately show "take N (drop (b * N) (map (stream_index shuf N) [0..<n])) ! i
      = perm_after shuf N (Suc b) ! i"
    using i by (simp add: stream_index_def del: perm_after.simps)
qed

text \<open>
  C6. Let the dataset have \<open>N \<ge> 1\<close> samples and let every call of
  \<^verbatim>\<open>np.random.shuffle\<close> return a permutation of its argument. Then for every \<open>n\<close> the
  stream yields \<open>n\<close> indices (it never ends), and every block of \<open>N\<close> consecutive
  indices that starts at a multiple \<open>b * N\<close> of \<open>N\<close> is the array produced by shuffle
  number \<open>b\<close>: a permutation of \<open>[0, N)\<close>, each value exactly once. For \<open>b = 0\<close> this
  is the statement about the first \<open>N\<close> indices.
\<close>

theorem shuffled_index_stream:
  assumes "1 \<le> N" and "\<forall>k xs. mset (shuf k xs) = mset xs"
  shows "\<exists>xs s. draw_indices shuf n (generate_shuffled_indices N) = Some (xs, s)
     \<and> length xs = n
     \<and> (\<forall>b. (b + 1) * N \<le> n \<longrightarrow>
           take N (drop (b * N) xs) = perm_after shuf N (Suc b)
         \<and> mset (take N (drop (b * N) xs)) = mset [0..<N]
         \<and> distinct (take N (drop (b * N) xs)))"
proof -
  from draw_indices_inv [OF assms, of n] obtain s where
    d: "draw_indices shuf n (generate_shuffled_indices N)
          = Some (map (stream_index shuf N) [0..<n], s)"
    by blast
  have blk: "take N (drop (b * N) (map (stream_index shuf N) [0..<n]))
      = perm_after shuf N (Suc b)" if "(b + 1) * N \<le> n" for b
    using length_perm_after [OF assms(2)] that by (rule block_of_stream)
  have dist: "distinct (perm_after shuf N k)" for k
    using mset_perm_after [OF assms(2), of N k] by (metis distinct_upt mset_eq_imp_distinct_iff)
  show ?thesis
    using d blk mset_perm_after [OF assms(2)] dist by (auto simp del: perm_after.simps)
qed

theorem shuffled_index_stream_witness:
  "(1::nat) \<le> 3 \<and> (\<forall>k xs. mset (rev (xs::nat list)) = mset xs)
   \<and> (\<exists>s. draw_indices (\<lambda>k. rev) 7 (generate_shuffled_indices 3)
            = Some ([2, 1, 0, 0, 1, 2, 2], s))
   \<and> mset (take 3 (drop 3 [2, 1, 0, 0, 1, 2, 2::nat])) = mset [0..<3]"
  using shuffled_index_stream [of 3 "\<lambda>k. rev" 7]
  by (simp add: generate_shuffled_indices_def shuffled_next_inside shuffled_next_reshuffle
      eval_nat_numeral upt_rec)

subsection \<open>The index lists of the generator\<close>

lemma fill_batch_inv:
  assumes N: "1 \<le> N" and sh: "\<forall>k xs. mset (shuf k xs) = mset xs"
  shows "length acc < B \<Longrightarrow> stream_inv shuf N n s \<Longrightarrow>
     \<exists>s'. fill_batch shuf B acc s
        = Some (acc @ map (stream_index shuf N) [n..<n + (B - length acc)], s')
      \<and> stream_inv shuf N (n + (B - length acc)) s'"
proof (induction "B - length acc" arbitrary: acc n s)
  case 0
  then show ?case by simp
next
  case (Suc m)
  from shuffled_next_inv [OF N sh Suc.prems(2)] obtain s' where
    nx: "shuffled_next shuf s = Some (stream_index shuf N n, s')"
    and inv': "stream_inv shuf N (Suc n) s'"
    by blast
  show ?case
  proof (cases "Suc (length acc) = B")
    case True
    then have "B - length acc = 1" by simp
    then show ?thesis
      using nx inv' True by (subst fill_batch.simps) simp
  next
    case False
    with Suc.prems(1) have lt: "length (acc @ [stream_index shuf N n]) < B" by simp
    have m: "m = B - length (acc @ [stream_index shuf N n])" using Suc.hyps(2) by simp
    from Suc.hyps(1) [OF m lt inv'] obtain s'' where
      f: "fill_batch shuf B (acc @ [stream_index shuf N n]) s'
          = Some ((acc @ [stream_index shuf N n])
                    @ map (stream_index shuf N)
                        [Suc n..<Suc n + (B - length (acc @ [stream_index shuf N n]))], s'')"
      and inv'': "stream_inv shuf N (Suc n + (B - length (acc @ [stream_index shuf N n]))) s''"
      by blast
    have eq: "Suc n + (B - length (acc @ [stream_index shuf N n])) = n + (B - length acc)"
      using Suc.prems(1) by simp
    have up: "[n..<n + (B - length acc)] = n # [Suc n..<n + (B - length acc)]"
      using Suc.prems(1) by (simp add: upt_rec)
    have f': "fill_batch shuf B (acc @ [stream_index shuf N n]) s'
          = Some (acc @ map (stream_index shuf N) [n..<n + (B - length acc)], s'')"
      using f unfolding eq up by simp
    have "fill_batch shuf B acc s = fill_batch shuf B (acc @ [stream_index shuf N n]) s'"
      using nx False by (subst fill_batch.simps) simp
    then show ?thesis
      using f' inv'' unfolding eq by auto
  qed
qed

lemma index_batches_shuffled:
  assumes N: "1 \<le> N" and B: "1 \<le> B" and sh: "\<forall>k xs. mset (shuf k xs) = mset xs"
  shows "\<exists>s. index_batches shuf N B k (generate N True)
       = Some (Inr (map (\<lambda>j. map (stream_index shuf N) [j * B..<j * B + B]) [0..<k], Shuffled s))
     \<and> stream_inv shuf N (k * B) s"
proof (induction k)
  case 0
  show ?case by (simp add: generate_def stream_inv_init)
next
  case (Suc k)
  then obtain s where
    ib: "index_batches shuf N B k (generate N True)
       = Some (Inr (map (\<lambda>j. map (stream_index shuf N) [j * B..<j * B + B]) [0..<k], Shuffled s))"
    and inv: "stream_inv shuf N (k * B) s"
    by blast
  have "length ([]::nat list) < B" using B by simp
  from fill_batch_inv [OF N sh this inv] obtain s' where
    f: "fill_batch shuf B [] s = Some (map (stream_index shuf N) [k * B..<k * B + B], s')"
    and inv': "stream_inv shuf N (k * B + B) s'"
    by auto
  show ?case using ib f inv' by (simp add: add.commute)
qed






subsection \<open>The worker pool and the batch\<close>

lemma collect_Inr_iff:
  "collect slots = Some (Inr vs) \<longleftrightarrow> slots = map (\<lambda>v. Some (Inr v)) vs"
proof (induction slots arbitrary: vs rule: collect.induct)
  case 1
  show ?case by auto
next
  case (2 slots)
  show ?case by auto
next
  case (3 e slots)
  show ?case by auto
next
  case (4 v slots)
  show ?case
  proof (cases vs)
    case Nil
    then show ?thesis by (auto split: option.splits sum.splits)
  next
    case (Cons a as)
    then show ?thesis using 4 [of as] by (auto split: option.splits sum.splits)
  qed
qed

lemma length_fold_slots:
  "length (fold (\<lambda>j slots. slots[j := jobs ! j]) order init) = length init"
  by (induction order arbitrary: init) simp_all

lemma nth_fold_slots:
  "j < length init \<Longrightarrow>
   fold (\<lambda>j slots. slots[j := jobs ! j]) order init ! j
     = (if j \<in> set order then jobs ! j else init ! j)"
proof (induction order arbitrary: init)
  case Nil
  show ?case by simp
next
  case (Cons a order)
  then show ?case by (simp add: nth_list_update)
qed

lemma parallel_all_complete:
  assumes "set order = {0..<length jobs}"
  shows "parallel order jobs = collect jobs"
proof -
  have "fold (\<lambda>j slots. slots[j := jobs ! j]) order (replicate (length jobs) None) = jobs"
    by (rule nth_equalityI) (simp_all add: length_fold_slots nth_fold_slots assms)
  then show ?thesis by (simp add: parallel_def)
qed

lemma parallel_returns:
  assumes "parallel order jobs = Some (Inr vs)"
  shows "jobs = map (\<lambda>v. Some (Inr v)) vs"
proof -
  let ?slots = "fold (\<lambda>j slots. slots[j := jobs ! j]) order (replicate (length jobs) None)"
  have slots: "?slots = map (\<lambda>v. Some (Inr v)) vs"
    using assms by (simp add: parallel_def collect_Inr_iff)
  have len: "length vs = length jobs"
    using arg_cong [OF slots, of length] by (simp add: length_fold_slots)
  have "jobs ! j = ?slots ! j" if "j < length jobs" for j
  proof -
    have "?slots ! j \<noteq> None" using that len by (simp add: slots)
    then have "j \<in> set order"
      using that by (auto simp add: nth_fold_slots split: if_splits)
    then show ?thesis using that by (simp add: nth_fold_slots)
  qed
  then have "jobs = ?slots"
    by (intro nth_equalityI) (simp_all add: length_fold_slots)
  with slots show ?thesis by simp
qed

lemma generate_batch_rows:
  assumes "generate_batch w X y nc aug order draws idxs = Some (Inr (Xb, yb))"
  shows "length Xb = length idxs \<and> length yb = length idxs \<and> idxs \<noteq> [] \<and>
    (\<forall>k<length idxs.
        generate_instance w X y nc aug (draws k) (idxs ! k) = Some (Inr (Xb ! k, yb ! k)))"
proof -
  let ?jobs = "map (\<lambda>(k, i). generate_instance w X y nc aug (draws k) i) (enumerate 0 idxs)"
  from assms obtain results where
    par: "parallel order ?jobs = Some (Inr results)" and ne: "results \<noteq> []"
    and Xb: "Xb = map fst results" and yb: "yb = map snd results"
    by (auto simp add: generate_batch_def split: option.splits sum.splits if_splits)
  from parallel_returns [OF par] have jobs: "?jobs = map (\<lambda>v. Some (Inr v)) results" .
  have len: "length results = length idxs"
    using arg_cong [OF jobs, of length] by simp
  have "generate_instance w X y nc aug (draws k) (idxs ! k) = Some (Inr (results ! k))"
    if "k < length idxs" for k
    using arg_cong [OF jobs, of "\<lambda>xs. xs ! k"] that len by (simp add: nth_enumerate_eq)
  then show ?thesis
    using len ne Xb yb by auto
qed

lemma generate_batch_order:
  assumes "set order = {0..<length idxs}"
  shows "generate_batch w X y nc aug order draws idxs
       = generate_batch w X y nc aug [0..<length idxs] draws idxs"
proof -
  let ?jobs = "map (\<lambda>(k, i). generate_instance w X y nc aug (draws k) i) (enumerate 0 idxs)"
  have "parallel order ?jobs = collect ?jobs"
    by (rule parallel_all_complete) (simp add: assms)
  moreover have "parallel [0..<length idxs] ?jobs = collect ?jobs"
    by (rule parallel_all_complete) simp
  ultimately show ?thesis by (simp add: generate_batch_def)
qed

lemma generate_batch_returns:
  assumes order: "set order = {0..<length idxs}" and ne: "idxs \<noteq> []"
    and all: "\<forall>k<length idxs. \<exists>v. generate_instance w X y nc aug (draws k) (idxs ! k) = Some (Inr v)"
  shows "\<exists>Xb yb. generate_batch w X y nc aug order draws idxs = Some (Inr (Xb, yb))"
proof -
  let ?jobs = "map (\<lambda>(k, i). generate_instance w X y nc aug (draws k) i) (enumerate 0 idxs)"
  define results where
    "results = map (\<lambda>k. SOME v. generate_instance w X y nc aug (draws k) (idxs ! k) = Some (Inr v))
                 [0..<length idxs]"
  have "?jobs = map (\<lambda>v. Some (Inr v)) results"
  proof (rule nth_equalityI)
    show "length ?jobs = length (map (\<lambda>v. Some (Inr v)) results)" by (simp add: results_def)
  next
    fix k assume "k < length ?jobs"
    then have k: "k < length idxs" by simp
    with all obtain v where "generate_instance w X y nc aug (draws k) (idxs ! k) = Some (Inr v)"
      by blast
    then have "generate_instance w X y nc aug (draws k) (idxs ! k)
        = Some (Inr (SOME v. generate_instance w X y nc aug (draws k) (idxs ! k) = Some (Inr v)))"
      by (metis (mono_tags, lifting) someI)
    then show "?jobs ! k = map (\<lambda>v. Some (Inr v)) results ! k"
      using k by (simp add: results_def nth_enumerate_eq)
  qed
  then have "collect ?jobs = Some (Inr results)" by (simp add: collect_Inr_iff)
  moreover have "parallel order ?jobs = collect ?jobs"
    by (rule parallel_all_complete) (simp add: order)
  moreover have "results \<noteq> []" using ne by (simp add: results_def)
  ultimately show ?thesis by (simp add: generate_batch_def)
qed

subsection \<open>One sample\<close>











lemma generate_instance_eval_mode:
  "generate_instance w X y nc False d i = Some (Inr (img, c)) \<longleftrightarrow>
     i < length X \<and> i < length y \<and>
     (\<exists>raw. load_image w (X ! i) = Inr raw \<and> to_categorical (y ! i) nc = Inr c \<and>
        img = Normalize (aug1 w False (aug1_draw_i d) raw))"
  by (auto simp add: generate_instance_def list_get_def aug2_def Let_def
      split: sum.splits if_splits)

lemma list_get_Inr: "list_get xs i = Inr v \<longleftrightarrow> i < length xs \<and> v = xs ! i"
  by (auto simp add: list_get_def)

lemma generate_instance_training_mode:
  assumes ret: "generate_instance w X y nc True d i = Some (Inr (img, c))"
  shows "i < length X \<and> i < length y \<and>
     (\<exists>raw_i c_i t raw_t c_t X_m.
        load_image w (X ! i) = Inr raw_i \<and> to_categorical (y ! i) nc = Inr c_i \<and>
        partner_loop y (y ! i) (choice_raw d) 0 = Some (Inr t) \<and>
        t < length X \<and> t < length y \<and>
        load_image w (X ! t) = Inr raw_t \<and> to_categorical (y ! t) nc = Inr c_t \<and>
        mix_images w (np_random_uniform (1 / 2) 1 (uniform_raw d))
          (aug1 w True (aug1_draw_i d) raw_i) (aug1 w True (aug1_draw_t d) raw_t) = Inr X_m \<and>
        img = aug2 True d X_m \<and>
        c = mix_labels w (np_random_uniform (1 / 2) 1 (uniform_raw d)) c_i c_t)"
proof -
  note defs = generate_instance_def Let_def
  from ret obtain path_i where 1: "list_get X i = Inr path_i"
    by (cases "list_get X i") (simp_all add: defs)
  from ret 1 obtain y_i where 2: "list_get y i = Inr y_i"
    by (cases "list_get y i") (simp_all add: defs)
  from ret 1 2 obtain raw_i where 3: "load_image w path_i = Inr raw_i"
    by (cases "load_image w path_i") (simp_all add: defs)
  from ret 1 2 3 obtain c_i where 4: "to_categorical y_i nc = Inr c_i"
    by (cases "to_categorical y_i nc") (simp_all add: defs)
  from ret 1 2 3 4 obtain t where 5: "partner_loop y y_i (choice_raw d) 0 = Some (Inr t)"
    by (cases "partner_loop y y_i (choice_raw d) 0")
       (auto simp add: defs split: sum.splits)
  from ret 1 2 3 4 5 obtain path_t where 6: "list_get X t = Inr path_t"
    by (cases "list_get X t") (simp_all add: defs)
  from ret 1 2 3 4 5 6 obtain y_t where 7: "list_get y t = Inr y_t"
    by (cases "list_get y t") (simp_all add: defs)
  from ret 1 2 3 4 5 6 7 obtain raw_t where 8: "load_image w path_t = Inr raw_t"
    by (cases "load_image w path_t") (simp_all add: defs)
  from ret 1 2 3 4 5 6 7 8 obtain c_t where 9: "to_categorical y_t nc = Inr c_t"
    by (cases "to_categorical y_t nc") (simp_all add: defs)
  let ?r = "np_random_uniform (1 / 2) 1 (uniform_raw d)"
  from ret 1 2 3 4 5 6 7 8 9 obtain X_m where
    10: "mix_images w ?r (aug1 w True (aug1_draw_i d) raw_i) (aug1 w True (aug1_draw_t d) raw_t)
          = Inr X_m"
    by (cases "mix_images w ?r (aug1 w True (aug1_draw_i d) raw_i)
          (aug1 w True (aug1_draw_t d) raw_t)") (simp_all add: defs)
  from ret 1 2 3 4 5 6 7 8 9 10 have 11: "img = aug2 True d X_m" "c = mix_labels w ?r c_i c_t"
    by (simp_all add: defs)
  from 1 2 6 7 have idx: "i < length X" "i < length y" "t < length X" "t < length y"
    and vals: "path_i = X ! i" "y_i = y ! i" "path_t = X ! t" "y_t = y ! t"
    by (simp_all add: list_get_Inr)
  show ?thesis
    using idx 3 4 5 8 9 10 11 unfolding vals by blast
qed








subsection \<open>The concrete environment\<close>

lemma world0_load:
  "path \<noteq> ''corrupt'' \<Longrightarrow> load_image world0 path = Inr [[[of_nat (length path), 0, 0]]]"
  by (simp add: load_image_def world0_def)

lemma world0_instance:
  assumes "i < length X" and "i < length y" and "X ! i \<noteq> ''corrupt''"
    and "to_categorical (y ! i) nc = Inr c"
  shows "generate_instance world0 X y nc False d i = Some (Inr (picture (length (X ! i)), c))"
  unfolding generate_instance_eval_mode using assms
  by (simp add: world0_load picture_def) (simp add: world0_def)



subsection \<open>Rows of a batch\<close>

text \<open>
  C2. Let the completion order \<open>order\<close> of the workers be any enumeration of the jobs of
  the batch. Then the call gives what it gives when the workers complete in request
  order; when it returns a batch, the batch has one row per requested index and row
  \<open>k\<close> is the pair that \<^verbatim>\<open>_generate_instance\<close> returned for the \<open>k\<close>-th index of the
  request list, so every sample had been computed; and it does return a batch when the
  list is not empty and every sample returns.
\<close>

theorem batch_rows_in_request_order:
  assumes "set order = {0..<length batch_indices}"
  shows "generate_batch w X y nc aug order draws batch_indices
       = generate_batch w X y nc aug [0..<length batch_indices] draws batch_indices
   \<and> (\<forall>Xb yb. generate_batch w X y nc aug order draws batch_indices = Some (Inr (Xb, yb)) \<longrightarrow>
         length Xb = length batch_indices \<and> length yb = length batch_indices \<and>
         (\<forall>k<length batch_indices.
            generate_instance w X y nc aug (draws k) (batch_indices ! k)
              = Some (Inr (Xb ! k, yb ! k))))
   \<and> (batch_indices \<noteq> [] \<and>
        (\<forall>k<length batch_indices.
            \<exists>v. generate_instance w X y nc aug (draws k) (batch_indices ! k) = Some (Inr v)) \<longrightarrow>
        (\<exists>Xb yb. generate_batch w X y nc aug order draws batch_indices = Some (Inr (Xb, yb))))"
proof (intro conjI allI impI)
  show "generate_batch w X y nc aug order draws batch_indices
       = generate_batch w X y nc aug [0..<length batch_indices] draws batch_indices"
    by (rule generate_batch_order [OF assms])
next
  fix Xb yb
  assume "generate_batch w X y nc aug order draws batch_indices = Some (Inr (Xb, yb))"
  from generate_batch_rows [OF this]
  show "length Xb = length batch_indices" and "length yb = length batch_indices"
    and "\<And>k. k < length batch_indices \<Longrightarrow>
       generate_instance w X y nc aug (draws k) (batch_indices ! k) = Some (Inr (Xb ! k, yb ! k))"
    by simp_all
next
  assume "batch_indices \<noteq> [] \<and>
    (\<forall>k<length batch_indices.
        \<exists>v. generate_instance w X y nc aug (draws k) (batch_indices ! k) = Some (Inr v))"
  then show "\<exists>Xb yb. generate_batch w X y nc aug order draws batch_indices = Some (Inr (Xb, yb))"
    using generate_batch_returns [OF assms] by blast
qed

lemma instance_examples:
  "generate_instance world0 paths9 labels9 2 False draws0 5 = Some (Inr (picture 5, [0, 1]))"
  "generate_instance world0 paths9 labels9 2 False draws0 2 = Some (Inr (picture 2, [1, 0]))"
  "generate_instance world0 paths9 labels9 2 False draws0 8 = Some (Inr (picture 8, [1, 0]))"
  "generate_instance world0 paths9 labels9 2 False draws0 1 = Some (Inr (picture 1, [0, 1]))"
  using world0_instance [of 5 paths9 labels9 2 "[0, 1]" draws0]
    world0_instance [of 2 paths9 labels9 2 "[1, 0]" draws0]
    world0_instance [of 8 paths9 labels9 2 "[1, 0]" draws0]
    world0_instance [of 1 paths9 labels9 2 "[0, 1]" draws0]
  by (simp_all add: paths9_def labels9_def to_categorical_def eval_nat_numeral)

lemma batch_example:
  "generate_batch world0 paths9 labels9 2 False [2, 0, 1, 3] (\<lambda>k. draws0) [5, 2, 8, 1]
     = Some (Inr ([picture 5, picture 2, picture 8, picture 1],
                  [[0, 1], [1, 0], [1, 0], [0, 1]]))"
  using instance_examples
  by (simp add: generate_batch_def parallel_def eval_nat_numeral)

theorem batch_rows_in_request_order_witness:
  "set [2, 0, 1, 3] = {0..<length [5, 2, 8, 1::nat]}
   \<and> generate_batch world0 paths9 labels9 2 False [2, 0, 1, 3] (\<lambda>k. draws0) [5, 2, 8, 1]
       = generate_batch world0 paths9 labels9 2 False [0..<length [5, 2, 8, 1::nat]]
           (\<lambda>k. draws0) [5, 2, 8, 1]
   \<and> generate_batch world0 paths9 labels9 2 False [2, 0, 1, 3] (\<lambda>k. draws0) [5, 2, 8, 1]
       = Some (Inr ([picture 5, picture 2, picture 8, picture 1],
                    [[0, 1], [1, 0], [1, 0], [0, 1]]))
   \<and> generate_instance world0 paths9 labels9 2 False draws0 ([5, 2, 8, 1] ! 2)
       = Some (Inr (picture 8, [1, 0]))"
proof -
  have order: "set [2, 0, 1, 3] = {0..<length [5, 2, 8, 1::nat]}" by auto
  have third: "[5, 2, 8, 1::nat] ! 2 = 8" by simp
  from batch_rows_in_request_order [OF order, of world0 paths9 labels9 2 False "\<lambda>k. draws0"]
  have "generate_batch world0 paths9 labels9 2 False [2, 0, 1, 3] (\<lambda>k. draws0) [5, 2, 8, 1]
       = generate_batch world0 paths9 labels9 2 False [0..<length [5, 2, 8, 1::nat]]
           (\<lambda>k. draws0) [5, 2, 8, 1]"
    by (rule conjunct1)
  then show ?thesis
    using order batch_example instance_examples(3) unfolding third by (intro conjI)
qed

subsection \<open>The batches of the generator\<close>

lemma generate_next_rows:
  assumes "generate_next w shuf X y B nc aug order draws st = Some (Inr ((Xb, yb), st'))"
  shows "\<exists>idxs. next_indices shuf (length X) B st = Some (Inr (idxs, st'))
     \<and> generate_batch w X y nc aug order draws idxs = Some (Inr (Xb, yb))"
  using assms
  by (auto simp add: generate_next_def split: option.splits sum.splits)

lemma next_indices_shuffled:
  assumes N: "1 \<le> N" and B: "1 \<le> B" and sh: "\<forall>k xs. mset (shuf k xs) = mset xs"
    and inv: "stream_inv shuf N n s"
  shows "\<exists>s'. next_indices shuf N B (Shuffled s)
       = Some (Inr (map (stream_index shuf N) [n..<n + B], Shuffled s'))
     \<and> stream_inv shuf N (n + B) s'"
proof -
  have "length ([]::nat list) < B" using B by simp
  from fill_batch_inv [OF N sh this inv] show ?thesis by auto
qed

text \<open>
  C10. In shuffled mode, for a dataset of \<open>N \<ge> 1\<close> samples and a batch size \<open>B \<ge> 1\<close>
  (shuffle returning permutations), every one of the first \<open>k\<close> calls of the generator,
  for every \<open>k\<close>, hands exactly \<open>B\<close> indices to \<^verbatim>\<open>_generate_batch\<close>: call \<open>j\<close> takes the
  positions \<open>j * B, ..., j * B + B - 1\<close> of the index stream, across the boundaries of the
  reshuffles. The next call does the same, and the batch it returns has \<open>B\<close> rows.
\<close>

theorem shuffled_batches_are_full:
  assumes N: "1 \<le> length X" and B: "1 \<le> B" and sh: "\<forall>k xs. mset (shuf k xs) = mset xs"
  shows "\<exists>bs s.
       index_batches shuf (length X) B k (generate (length X) True) = Some (Inr (bs, Shuffled s))
     \<and> length bs = k
     \<and> (\<forall>j<k. bs ! j = map (stream_index shuf (length X)) [j * B..<j * B + B]
            \<and> length (bs ! j) = B)
     \<and> (\<exists>b s'. next_indices shuf (length X) B (Shuffled s) = Some (Inr (b, Shuffled s'))
            \<and> length b = B)
     \<and> (\<forall>w y nc aug order draws Xb yb st'.
           generate_next w shuf X y B nc aug order draws (Shuffled s)
             = Some (Inr ((Xb, yb), st')) \<longrightarrow>
           length Xb = B \<and> length yb = B)"
proof -
  from index_batches_shuffled [OF N B sh, of k] obtain s where
    ib: "index_batches shuf (length X) B k (generate (length X) True)
       = Some (Inr (map (\<lambda>j. map (stream_index shuf (length X)) [j * B..<j * B + B]) [0..<k],
             Shuffled s))"
    and inv: "stream_inv shuf (length X) (k * B) s"
    by blast
  from next_indices_shuffled [OF N B sh inv] obtain s' where
    nx: "next_indices shuf (length X) B (Shuffled s)
       = Some (Inr (map (stream_index shuf (length X)) [k * B..<k * B + B], Shuffled s'))"
    by blast
  have rows: "length Xb = B \<and> length yb = B"
    if "generate_next w shuf X y B nc aug order draws (Shuffled s) = Some (Inr ((Xb, yb), st'))"
    for w y nc aug order draws Xb yb st'
  proof -
    from generate_next_rows [OF that] nx
    have "generate_batch w X y nc aug order draws
        (map (stream_index shuf (length X)) [k * B..<k * B + B]) = Some (Inr (Xb, yb))"
      by auto
    from generate_batch_rows [OF this] show ?thesis by simp
  qed
  show ?thesis
    using ib nx rows by (intro exI [of _ "map (\<lambda>j. map (stream_index shuf (length X))
      [j * B..<j * B + B]) [0..<k]"] exI [of _ s]) auto
qed

lemma batches_per_pass_not_dvd:
  assumes B: "1 \<le> B" and nd: "\<not> B dvd N"
  shows "batches_per_pass N B = N div B + 1"
proof -
  define P r where "P = B * (N div B)" and "r = N mod B"
  have split: "P + r = N" unfolding P_def r_def by simp
  have r0: "r \<noteq> 0" using nd unfolding r_def by (simp add: mod_eq_0_iff_dvd)
  have rB: "r < B" using B unfolding r_def by simp
  have lo: "P + B \<le> N + B - 1" using split r0 rB by arith
  have hi: "N + B - 1 < P + B + B" using split r0 rB by arith
  have "B * (N div B + 1) \<le> N + B - 1"
    using lo by (simp add: P_def)
  moreover have "N + B - 1 < B * Suc (N div B + 1)"
    using hi by (simp add: P_def)
  ultimately have "(N + B - 1) div B = N div B + 1" by (rule div_nat_eqI)
  then show ?thesis by (simp add: batches_per_pass_def)
qed





subsection \<open>Two runs of the generator\<close>

lemma fill_batch_step:
  "shuffled_next shuf s = Some (i, s') \<Longrightarrow>
   fill_batch shuf B acc s
     = (if Suc (length acc) = B then Some (acc @ [i], s') else fill_batch shuf B (acc @ [i]) s')"
  by (subst fill_batch.simps) simp

lemma instance_examples5:
  "generate_instance world0 paths5 labels5 2 False draws0 4 = Some (Inr (picture 4, [1, 0]))"
  "generate_instance world0 paths5 labels5 2 False draws0 1 = Some (Inr (picture 1, [0, 1]))"
  "generate_instance world0 paths5 labels5 2 False draws0 2 = Some (Inr (picture 2, [1, 0]))"
  using world0_instance [of 4 paths5 labels5 2 "[1, 0]" draws0]
    world0_instance [of 1 paths5 labels5 2 "[0, 1]" draws0]
    world0_instance [of 2 paths5 labels5 2 "[1, 0]" draws0]
  by (simp_all add: paths5_def labels5_def to_categorical_def eval_nat_numeral)

lemma length_paths5: "length paths5 = 5"
  by (simp add: paths5_def)





lemma shuffled_example_indices:
  "index_batches (\<lambda>k. rev) 5 2 3 (generate 5 True)
     = Some (Inr ([[4, 3], [2, 1], [0, 0]],
          Shuffled \<lparr>all_indices = [0, 1, 2, 3, 4], cursor = 1, shuffles = 2\<rparr>))"
  by (simp add: eval_nat_numeral generate_def generate_shuffled_indices_def
      shuffled_next_inside shuffled_next_reshuffle fill_batch_step upt_rec)

lemma shuffled_example_batch:
  "generate_next world0 (\<lambda>k. rev) paths5 labels5 2 2 False [1, 0] (\<lambda>k. draws0)
      (Shuffled \<lparr>all_indices = [0, 1, 2, 3, 4], cursor = 1, shuffles = 2\<rparr>)
     = Some (Inr (([picture 1, picture 2], [[0, 1], [1, 0]]),
          Shuffled \<lparr>all_indices = [0, 1, 2, 3, 4], cursor = 3, shuffles = 2\<rparr>))"
proof -
  have "next_indices (\<lambda>k. rev) 5 2
      (Shuffled \<lparr>all_indices = [0, 1, 2, 3, 4], cursor = 1, shuffles = 2\<rparr>)
    = Some (Inr ([1, 2], Shuffled \<lparr>all_indices = [0, 1, 2, 3, 4], cursor = 3, shuffles = 2\<rparr>))"
    by (simp add: eval_nat_numeral shuffled_next_inside fill_batch_step)
  moreover have "generate_batch world0 paths5 labels5 2 False [1, 0] (\<lambda>k. draws0) [1, 2]
      = Some (Inr ([picture 1, picture 2], [[0, 1], [1, 0]]))"
    using instance_examples5 by (simp add: generate_batch_def parallel_def eval_nat_numeral)
  ultimately show ?thesis
    by (simp add: generate_next_def length_paths5)
qed

theorem shuffled_batches_are_full_witness:
  "1 \<le> length paths5 \<and> (1::nat) \<le> 2 \<and> (\<forall>k xs. mset (rev (xs::nat list)) = mset xs)
   \<and> index_batches (\<lambda>k. rev) (length paths5) 2 3 (generate (length paths5) True)
       = Some (Inr ([[4, 3], [2, 1], [0, 0]],
            Shuffled \<lparr>all_indices = [0, 1, 2, 3, 4], cursor = 1, shuffles = 2\<rparr>))
   \<and> generate_next world0 (\<lambda>k. rev) paths5 labels5 2 2 False [1, 0] (\<lambda>k. draws0)
        (Shuffled \<lparr>all_indices = [0, 1, 2, 3, 4], cursor = 1, shuffles = 2\<rparr>)
       = Some (Inr (([picture 1, picture 2], [[0, 1], [1, 0]]),
            Shuffled \<lparr>all_indices = [0, 1, 2, 3, 4], cursor = 3, shuffles = 2\<rparr>))
   \<and> length [picture 1, picture 2] = (2::nat)"
proof -
  have N: "1 \<le> length paths5" by (simp add: length_paths5)
  have B: "(1::nat) \<le> 2" by simp
  have sh: "\<forall>k xs. mset (rev (xs::nat list)) = mset xs" by simp
  have reach: "index_batches (\<lambda>k. rev) (length paths5) 2 3 (generate (length paths5) True)
       = Some (Inr ([[4, 3], [2, 1], [0, 0]],
            Shuffled \<lparr>all_indices = [0, 1, 2, 3, 4], cursor = 1, shuffles = 2\<rparr>))"
    using shuffled_example_indices by (simp add: length_paths5)
  from shuffled_batches_are_full [OF N B sh, of 3] reach shuffled_example_batch
  have "length [picture 1, picture 2] = (2::nat)"
    by auto
  then show ?thesis
    using N sh reach shuffled_example_batch by simp
qed

subsection \<open>The partner loop of between-class mixing\<close>

lemma partner_loop_hit:
  assumes ne: "y \<noteq> []"
  shows "y ! (raw (k + m) mod length y) \<noteq> y_i \<Longrightarrow>
     (\<forall>j<m. y ! (raw (k + j) mod length y) = y_i) \<Longrightarrow>
     partner_loop y y_i raw k = Some (Inr (raw (k + m) mod length y))"
proof (induction m arbitrary: k)
  case 0
  then show ?case
    using ne by (subst partner_loop.simps) (simp add: np_random_choice_def)
next
  case (Suc m)
  have here: "y ! (raw k mod length y) = y_i" using Suc.prems(2) [rule_format, of 0] by simp
  have "partner_loop y y_i raw (Suc k) = Some (Inr (raw (Suc k + m) mod length y))"
  proof (rule Suc.IH)
    show "y ! (raw (Suc k + m) mod length y) \<noteq> y_i" using Suc.prems(1) by simp
    show "\<forall>j<m. y ! (raw (Suc k + j) mod length y) = y_i"
      using Suc.prems(2) [rule_format, of "Suc j" for j] by simp
  qed
  then show ?case
    using ne here by (subst partner_loop.simps) (simp add: np_random_choice_def)
qed

lemma partner_loop_returned:
  assumes "partner_loop y y_i raw k = Some r"
  shows "case r of
           Inl e \<Rightarrow> y = []
         | Inr t \<Rightarrow> y \<noteq> [] \<and> t < length y \<and> y ! t \<noteq> y_i \<and> (\<exists>k'\<ge>k. t = raw k' mod length y)"
proof (rule partner_loop.raw_induct
    [where P = "\<lambda>y y_i raw k r. case r of
           Inl e \<Rightarrow> y = []
         | Inr t \<Rightarrow> y \<noteq> [] \<and> t < length y \<and> y ! t \<noteq> y_i \<and> (\<exists>k'\<ge>k. t = raw k' mod length y)",
     OF _ assms])
  fix f :: "int list \<Rightarrow> int \<Rightarrow> (nat \<Rightarrow> nat) \<Rightarrow> nat \<Rightarrow> (error + nat) option"
    and y y_i raw k r
  assume IH: "\<And>y y_i raw k r. f y y_i raw k = Some r \<Longrightarrow>
      (case r of
           Inl e \<Rightarrow> y = []
         | Inr t \<Rightarrow> y \<noteq> [] \<and> t < length y \<and> y ! t \<noteq> y_i \<and> (\<exists>k'\<ge>k. t = raw k' mod length y))"
    and step: "(case np_random_choice (length y) (raw k) of
         Inl e \<Rightarrow> Some (Inl e)
       | Inr t \<Rightarrow> if y ! t \<noteq> y_i then Some (Inr t) else f y y_i raw (Suc k)) = Some r"
  show "case r of
           Inl e \<Rightarrow> y = []
         | Inr t \<Rightarrow> y \<noteq> [] \<and> t < length y \<and> y ! t \<noteq> y_i \<and> (\<exists>k'\<ge>k. t = raw k' mod length y)"
  proof (cases "y = []")
    case True
    with step show ?thesis by (auto simp add: np_random_choice_def)
  next
    case False
    show ?thesis
    proof (cases "y ! (raw k mod length y) \<noteq> y_i")
      case True
      with step False show ?thesis by (auto simp add: np_random_choice_def)
    next
      case same: False
      with step False have "f y y_i raw (Suc k) = Some r"
        by (simp add: np_random_choice_def)
      from IH [OF this] show ?thesis
        by (cases r) (auto intro: Suc_leD)
    qed
  qed
qed

lemma partner_loop_returns_iff:
  assumes ne: "y \<noteq> []"
  shows "partner_loop y y_i raw 0 \<noteq> None \<longleftrightarrow> (\<exists>k. y ! (raw k mod length y) \<noteq> y_i)"
proof
  assume "partner_loop y y_i raw 0 \<noteq> None"
  then obtain r where r: "partner_loop y y_i raw 0 = Some r" by auto
  from partner_loop_returned [OF r] ne show "\<exists>k. y ! (raw k mod length y) \<noteq> y_i"
    by (cases r) auto
next
  assume ex: "\<exists>k. y ! (raw k mod length y) \<noteq> y_i"
  define m where "m = (LEAST k. y ! (raw k mod length y) \<noteq> y_i)"
  have "y ! (raw m mod length y) \<noteq> y_i"
    unfolding m_def using ex by (rule LeastI_ex)
  then have hit: "y ! (raw (0 + m) mod length y) \<noteq> y_i" by simp
  have before: "\<forall>j<m. y ! (raw (0 + j) mod length y) = y_i"
    unfolding m_def using not_less_Least by auto
  from partner_loop_hit [OF ne hit before] show "partner_loop y y_i raw 0 \<noteq> None" by simp
qed

lemma partner_loop_all_same:
  assumes "\<forall>t<length y. y ! t = y_i" and "y \<noteq> []"
  shows "partner_loop y y_i raw k = None"
proof (rule ccontr)
  assume "partner_loop y y_i raw k \<noteq> None"
  then obtain r where r: "partner_loop y y_i raw k = Some r" by auto
  from partner_loop_returned [OF r] assms show False
    by (cases r) auto
qed

text \<open>
  C9. The draws of the partner loop are an explicit sequence \<open>raw\<close>; draw \<open>k\<close> selects
  the index \<open>raw k mod len(y)\<close>. For the primary sample \<open>index\<close>: the loop returns on a
  given sequence exactly when the sequence draws, at some point, a sample whose label
  differs from the primary's; there is a sequence on which it returns exactly when the
  dataset contains such a sample; and when all samples share the primary's label,
  \<^verbatim>\<open>_generate_instance\<close> in training mode returns no sample on any sequence: it never
  returns once the primary image is loaded and its label encoded (before that it can
  only raise).
\<close>

theorem partner_loop_termination:
  assumes idx: "index < length y"
  shows "(partner_loop y (y ! index) raw 0 \<noteq> None
           \<longleftrightarrow> (\<exists>k. y ! (raw k mod length y) \<noteq> y ! index))
     \<and> ((\<exists>raw'. partner_loop y (y ! index) raw' 0 \<noteq> None)
           \<longleftrightarrow> (\<exists>t<length y. y ! t \<noteq> y ! index))
     \<and> ((\<forall>t<length y. y ! t = y ! index) \<longrightarrow>
          (\<forall>v. generate_instance w X y nc True d index \<noteq> Some (Inr v))
        \<and> (index < length X \<and> (\<exists>img. PIL_open w (X ! index) = Inr img)
             \<and> (\<exists>c. to_categorical (y ! index) nc = Inr c) \<longrightarrow>
           generate_instance w X y nc True d index = None))"
proof (intro conjI impI)
  have ne: "y \<noteq> []" using idx by auto
  show "partner_loop y (y ! index) raw 0 \<noteq> None
      \<longleftrightarrow> (\<exists>k. y ! (raw k mod length y) \<noteq> y ! index)"
    by (rule partner_loop_returns_iff [OF ne])
  show "(\<exists>raw'. partner_loop y (y ! index) raw' 0 \<noteq> None)
      \<longleftrightarrow> (\<exists>t<length y. y ! t \<noteq> y ! index)"
  proof
    assume "\<exists>raw'. partner_loop y (y ! index) raw' 0 \<noteq> None"
    then obtain raw' :: "nat \<Rightarrow> nat" and k
      where "y ! (raw' k mod length y) \<noteq> y ! index"
      using partner_loop_returns_iff [OF ne] by blast
    moreover have "raw' k mod length y < length y" using ne by simp
    ultimately show "\<exists>t<length y. y ! t \<noteq> y ! index" by blast
  next
    assume "\<exists>t<length y. y ! t \<noteq> y ! index"
    then obtain t where t: "t < length y" "y ! t \<noteq> y ! index" by blast
    then have "y ! ((\<lambda>k. t) 0 mod length y) \<noteq> y ! index" by simp
    then have "partner_loop y (y ! index) (\<lambda>k. t) 0 \<noteq> None"
      using partner_loop_returns_iff [OF ne, of "y ! index" "\<lambda>k. t"] by blast
    then show "\<exists>raw'. partner_loop y (y ! index) raw' 0 \<noteq> None" by blast
  qed
next
  assume same: "\<forall>t<length y. y ! t = y ! index"
  have ne: "y \<noteq> []" using idx by auto
  have loop: "partner_loop y (y ! index) (choice_raw d) 0 = None"
    by (rule partner_loop_all_same [OF same ne])
  show "\<forall>v. generate_instance w X y nc True d index \<noteq> Some (Inr v)"
  proof (intro allI notI)
    fix v
    assume "generate_instance w X y nc True d index = Some (Inr v)"
    then have "generate_instance w X y nc True d index = Some (Inr (fst v, snd v))" by simp
    from generate_instance_training_mode [OF this] loop show False by auto
  qed
next
  assume same: "\<forall>t<length y. y ! t = y ! index"
    and ok: "index < length X \<and> (\<exists>img. PIL_open w (X ! index) = Inr img)
             \<and> (\<exists>c. to_categorical (y ! index) nc = Inr c)"
  have ne: "y \<noteq> []" using idx by auto
  have loop: "partner_loop y (y ! index) (choice_raw d) 0 = None"
    by (rule partner_loop_all_same [OF same ne])
  from ok obtain img c where "PIL_open w (X ! index) = Inr img"
    and "to_categorical (y ! index) nc = Inr c" by blast
  then show "generate_instance w X y nc True d index = None"
    using ok idx loop
    by (simp add: generate_instance_def list_get_def load_image_def Let_def)
qed

theorem partner_loop_termination_witness:
  "(0::nat) < length [0, 0, 0::int]
   \<and> generate_instance world0 [''a'', ''b'', ''c''] [0, 0, 0] 2 True draws0 0 = None
   \<and> (1::nat) < length labels5
   \<and> partner_loop labels5 (labels5 ! 1) (choice_raw draws0) 0 = Some (Inr 0)"
proof -
  have a: "(0::nat) < length [0, 0, 0::int]" by simp
  have same: "\<forall>t<length [0, 0, 0::int]. [0, 0, 0::int] ! t = [0, 0, 0] ! 0"
    by (auto simp add: less_Suc_eq)
  have ok: "(0::nat) < length [''a'', ''b'', ''c'']
      \<and> (\<exists>img. PIL_open world0 ([''a'', ''b'', ''c''] ! 0) = Inr img)
      \<and> (\<exists>c. to_categorical ([0, 0, 0] ! 0) 2 = Inr c)"
    by (simp add: world0_def to_categorical_def)
  from partner_loop_termination [OF a, of "choice_raw draws0" world0 "[''a'', ''b'', ''c'']" 2 draws0]
    same ok
  have 1: "generate_instance world0 [''a'', ''b'', ''c''] [0, 0, 0] 2 True draws0 0 = None"
    by blast
  have b: "(1::nat) < length labels5" by (simp add: labels5_def)
  have 2: "partner_loop labels5 (labels5 ! 1) (choice_raw draws0) 0 = Some (Inr 0)"
    using partner_loop_hit [of labels5 "choice_raw draws0" 0 0 "labels5 ! 1"]
    by (simp add: labels5_def draws0_def)
  show ?thesis using a 1 b 2 by simp
qed

subsection \<open>Between-class mixing\<close>

















subsection \<open>The normalisation stage\<close>




subsection \<open>Loading errors\<close>








end
